theory Spec2Isabelle
  imports Main "HOL-Library.Sublist"
begin

section \<open>Strings\<close>

text \<open>
  JavaScript strings are modelled as \<^typ>\<open>string\<close>; a character stands for a code unit in
  the range 0 to 255, read as Latin-1. The helpers below are the built-ins the route file
  calls, restricted to that range.
\<close>

text \<open>White space and line terminators: what \<open>String.prototype.trim\<close> strips and what
  \<open>\s\<close> matches (tab, LF, VT, FF, CR, space, NBSP).\<close>

definition is_space :: "char \<Rightarrow> bool" where
  "is_space c \<longleftrightarrow> (of_char c :: nat) \<in> {9, 10, 11, 12, 13, 32, 160}"

definition trim :: "string \<Rightarrow> string" where
  "trim s = rev (dropWhile is_space (rev (dropWhile is_space s)))"

definition lower_char :: "char \<Rightarrow> char" where
  "lower_char c =
     (let n = (of_char c :: nat)
      in if (65 \<le> n \<and> n \<le> 90) \<or> (192 \<le> n \<and> n \<le> 214) \<or> (216 \<le> n \<and> n \<le> 222)
         then char_of (n + 32) else c)"

definition toLowerCase :: "string \<Rightarrow> string" where
  "toLowerCase s = map lower_char s"

fun endsWith :: "string \<Rightarrow> string \<Rightarrow> bool" where
  "endsWith s suf = (length suf \<le> length s \<and> drop (length s - length suf) s = suf)"

section \<open>Regular expressions built from column names\<close>

text \<open>
  \<open>replaceTemplateVariables\<close> builds \<open>new RegExp(`\\{${key}\\}`, 'g')\<close>: the column name
  is pasted into the pattern source unescaped. The fragment of pattern syntax modelled
  here is: ordinary characters, a backslash followed by a syntax character, the dot and
  the alternation bar. A source outside the fragment is handed to a parameter of type
  \<open>regexp_engine\<close>, which answers for the JavaScript engine: either the message of the
  SyntaxError thrown by \<open>new RegExp\<close>, or the string \<open>replace\<close> returns.
\<close>

datatype atom = Lit char | AnyChar

datatype token = TAtom atom | TBar

definition syntax_char :: "char \<Rightarrow> bool" where
  "syntax_char c \<longleftrightarrow> c \<in> set [CHR ''^'', CHR ''$'', CHR 0x5C, CHR ''.'', CHR ''*'', CHR ''+'',
     CHR ''?'', CHR ''('', CHR '')'', CHR ''['', CHR '']'', CHR ''{'', CHR ''}'', CHR ''|'']"

fun tokens :: "string \<Rightarrow> token list option" where
  "tokens [] = Some []"
| "tokens [c] =
     (if c = CHR ''.'' then Some [TAtom AnyChar]
      else if c = CHR ''|'' then Some [TBar]
      else if syntax_char c then None
      else Some [TAtom (Lit c)])"
| "tokens (c # d # cs) =
     (if c = CHR 0x5C then
        (if syntax_char d then map_option ((#) (TAtom (Lit d))) (tokens cs) else None)
      else if c = CHR ''.'' then map_option ((#) (TAtom AnyChar)) (tokens (d # cs))
      else if c = CHR ''|'' then map_option ((#) TBar) (tokens (d # cs))
      else if syntax_char c then None
      else map_option ((#) (TAtom (Lit c))) (tokens (d # cs)))"

fun alternatives :: "token list \<Rightarrow> atom list \<Rightarrow> atom list list" where
  "alternatives [] cur = [cur]"
| "alternatives (TBar # ts) cur = cur # alternatives ts []"
| "alternatives (TAtom a # ts) cur = alternatives ts (cur @ [a])"

text \<open>Without the \<open>s\<close> flag the dot matches any character but a line terminator.\<close>

fun atom_matches :: "atom \<Rightarrow> char \<Rightarrow> bool" where
  "atom_matches (Lit c) d = (c = d)"
| "atom_matches AnyChar d = (d \<noteq> CHR 0x0A \<and> d \<noteq> CHR 0x0D)"

fun match_here :: "atom list \<Rightarrow> string \<Rightarrow> bool" where
  "match_here [] s = True"
| "match_here (a # as) [] = False"
| "match_here (a # as) (c # cs) = (atom_matches a c \<and> match_here as cs)"

text \<open>Alternatives are tried in order; the first that matches at the current position
  wins and fixes the length of the match.\<close>

fun first_alternative :: "atom list list \<Rightarrow> string \<Rightarrow> nat option" where
  "first_alternative [] s = None"
| "first_alternative (alt # alts) s =
     (if match_here alt s then Some (length alt) else first_alternative alts s)"

text \<open>
  \<open>GetSubstitution\<close> for a pattern without capture groups: in the replacement text
  \<open>$$\<close> stands for a dollar sign, \<open>$&\<close> for the matched text, \<open>$`\<close> for the text that precedes the
  match and \<open>$'\<close> for the text that follows it; any other \<open>$\<close> is literal.
\<close>

fun getSubstitution :: "string \<Rightarrow> string \<Rightarrow> string \<Rightarrow> string \<Rightarrow> string" where
  "getSubstitution matched pre post [] = []"
| "getSubstitution matched pre post [c] = [c]"
| "getSubstitution matched pre post (c # d # r) =
     (if c = CHR ''$'' then
        (if d = CHR ''$'' then CHR ''$'' # getSubstitution matched pre post r
         else if d = CHR ''&'' then matched @ getSubstitution matched pre post r
         else if d = CHR 0x60 then pre @ getSubstitution matched pre post r
         else if d = CHR 0x27 then post @ getSubstitution matched pre post r
         else c # getSubstitution matched pre post (d # r))
      else c # getSubstitution matched pre post (d # r))"

text \<open>
  \<open>String.prototype.replace\<close> with a global pattern: scan from the left; behind a match
  continue where it ended; behind an empty match copy one character and continue. \<open>pre\<close> is
  the part of the subject already scanned.
\<close>

fun replace_global :: "atom list list \<Rightarrow> string \<Rightarrow> string \<Rightarrow> string \<Rightarrow> string" where
  "replace_global alts v pre [] =
     (case first_alternative alts [] of
        Some n \<Rightarrow> getSubstitution [] pre [] v
      | None \<Rightarrow> [])"
| "replace_global alts v pre (c # cs) =
     (case first_alternative alts (c # cs) of
        None \<Rightarrow> c # replace_global alts v (pre @ [c]) cs
      | Some 0 \<Rightarrow> getSubstitution [] pre (c # cs) v @ c # replace_global alts v (pre @ [c]) cs
      | Some (Suc n) \<Rightarrow>
          getSubstitution (c # take n cs) pre (drop n cs) v
            @ replace_global alts v (pre @ c # take n cs) (drop n cs))"

type_synonym regexp_engine = "string \<Rightarrow> string \<Rightarrow> string \<Rightarrow> string + string"

definition regexp_replace :: "regexp_engine \<Rightarrow> string \<Rightarrow> string \<Rightarrow> string \<Rightarrow> string + string" where
  "regexp_replace rx source v s =
     (case tokens source of
        Some ts \<Rightarrow> Inr (replace_global (alternatives ts []) v [] s)
      | None \<Rightarrow> rx source v s)"

section \<open>Template variables\<close>

text \<open>
  An object with string values is the list of its entries, one for each key, in the order
  of \<open>Object.keys\<close>. A thrown exception is \<open>Inl\<close> of its message. The value read for a key
  is \<open>variables[key] || ''\<close>, which for a string is the string itself.
\<close>

type_synonym row = "(string \<times> string) list"

definition placeholder :: "string \<Rightarrow> string" where
  "placeholder key = [CHR 0x5C, CHR ''{''] @ key @ [CHR 0x5C, CHR ''}'']"

fun replace_keys :: "regexp_engine \<Rightarrow> row \<Rightarrow> string \<Rightarrow> string + string" where
  "replace_keys rx [] result = Inr result"
| "replace_keys rx ((key, val) # variables) result =
     (case regexp_replace rx (placeholder key) val result of
        Inl e \<Rightarrow> Inl e
      | Inr result' \<Rightarrow> replace_keys rx variables result')"

definition replaceTemplateVariables :: "regexp_engine \<Rightarrow> string \<Rightarrow> row \<Rightarrow> string + string" where
  "replaceTemplateVariables rx text variables =
     (if text = [] then Inr [] else replace_keys rx variables text)"

section \<open>Helpers of the route file\<close>

text \<open>
  \<open>isValidEmail\<close> tests \<open>/^[^\s@]+@[^\s@]+\.[^\s@]+$/\<close> on the trimmed value. The pattern
  is a sequence of pieces, each a character class taken once or one or more times, matched
  against the whole string.
\<close>

datatype cclass = NotSpaceAt | Exactly char

fun in_class :: "cclass \<Rightarrow> char \<Rightarrow> bool" where
  "in_class NotSpaceAt c = (\<not> is_space c \<and> c \<noteq> CHR ''@'')"
| "in_class (Exactly d) c = (c = d)"

datatype piece = Once cclass | Plus cclass

fun matches_whole :: "piece list \<Rightarrow> string \<Rightarrow> bool" where
  "matches_whole [] s = (s = [])"
| "matches_whole (p # ps) [] = False"
| "matches_whole (Once k # ps) (c # cs) = (in_class k c \<and> matches_whole ps cs)"
| "matches_whole (Plus k # ps) (c # cs) =
     (in_class k c \<and> (matches_whole (Plus k # ps) cs \<or> matches_whole ps cs))"

definition emailRegex :: "piece list" where
  "emailRegex = [Plus NotSpaceAt, Once (Exactly CHR ''@''), Plus NotSpaceAt,
                 Once (Exactly CHR ''.''), Plus NotSpaceAt]"

text \<open>A cell read from a row is \<open>None\<close> when the row has no such key (\<open>undefined\<close>).\<close>

definition falsy :: "string option \<Rightarrow> bool" where
  "falsy x \<longleftrightarrow> x = None \<or> x = Some []"

definition isValidEmail :: "string option \<Rightarrow> bool" where
  "isValidEmail email =
     (case email of
        None \<Rightarrow> False
      | Some e \<Rightarrow> if e = [] then False else matches_whole emailRegex (trim e))"

definition is_email_key :: "string \<Rightarrow> bool" where
  "is_email_key key =
     (let normalizedKey = trim (toLowerCase key)
      in normalizedKey = ''email'' \<or> normalizedKey = ''e-mail'')"

definition findEmailColumn :: "row \<Rightarrow> string option" where
  "findEmailColumn r =
     (case find is_email_key (map fst r) of
        None \<Rightarrow> None
      | Some emailKey \<Rightarrow> if emailKey = [] then None else Some emailKey)"

text \<open>Decimal rendering of a number inside a template literal.\<close>

fun show_nat :: "nat \<Rightarrow> string" where
  "show_nat n =
     (if n < 10 then [char_of (48 + n)] else show_nat (n div 10) @ [char_of (48 + n mod 10)])"

declare show_nat.simps [simp del]

definition show_cell :: "string option \<Rightarrow> string" where
  "show_cell x = (case x of None \<Rightarrow> ''undefined'' | Some s \<Rightarrow> s)"

text \<open>
  \<open>parseInt(s, 10)\<close>: skip leading white space, read an optional sign, then the longest
  run of decimal digits; no digit gives \<open>NaN\<close> (\<open>None\<close>). The result is the integer the
  digits denote; JavaScript passes on the Number nearest to it.
\<close>

definition is_digit :: "char \<Rightarrow> bool" where
  "is_digit c \<longleftrightarrow> 48 \<le> (of_char c :: nat) \<and> (of_char c :: nat) \<le> 57"

definition digits_value :: "string \<Rightarrow> nat" where
  "digits_value z = foldl (\<lambda>a c. 10 * a + ((of_char c :: nat) - 48)) 0 z"

definition parseInt :: "string \<Rightarrow> int option" where
  "parseInt s =
     (let s1 = dropWhile is_space s;
          neg = (s1 \<noteq> [] \<and> hd s1 = CHR ''-'');
          s2 = (if s1 \<noteq> [] \<and> (hd s1 = CHR ''-'' \<or> hd s1 = CHR ''+'') then tl s1 else s1);
          z = takeWhile is_digit s2
      in if z = [] then None
         else Some (if neg then - int (digits_value z) else int (digits_value z)))"

text \<open>\<open>bodyHtml.replace(/<[^>]*>/g, '')\<close>: a tag runs from \<open><\<close> to the next \<open>>\<close>.\<close>

function stripTags :: "string \<Rightarrow> string" where
  "stripTags [] = []"
| "stripTags (c # cs) =
     (if c = CHR ''<'' \<and> CHR ''>'' \<in> set cs
      then stripTags (tl (dropWhile (\<lambda>d. d \<noteq> CHR ''>'') cs))
      else c # stripTags cs)"
  by pat_completeness auto
termination
  by (relation "measure length")
     (auto simp: less_Suc_eq_le intro: order_trans [OF diff_le_self length_dropWhile_le])

section \<open>POST /api/bulk-emails/send\<close>

subsection \<open>Data\<close>

record account =
  acc_id :: int
  acc_name :: string
  acc_email :: string
  acc_type :: string
  smtpHost :: string
  smtpPort :: int
  smtpUsername :: string
  smtpPassword :: string

text \<open>\<open>tpl_attachments\<close> is \<open>None\<close> when the template has no attachment array.\<close>

record template =
  tpl_attachments :: "string list option"

text \<open>The argument of \<open>findByPk\<close>: the form field as sent, or the number read from it.\<close>

datatype pk = PStr string | PNum int

record upload =
  mimetype :: string
  originalname :: string
  buffer :: string

record request =
  req_file :: "upload option"
  emailAccountId :: "string option"
  subject :: "string option"
  bodyHtml :: "string option"
  bodyText :: "string option"
  templateId :: "string option"

record transport =
  host :: string
  port :: int
  secure :: bool
  requireTLS :: bool
  auth_user :: string
  auth_pass :: string

record mail =
  mail_from :: string
  mail_to :: string
  mail_subject :: string
  mail_text :: string
  mail_html :: string
  mail_attachments :: "string list option"

record log_entry =
  log_account :: int
  log_to :: string
  log_subject :: string
  log_status :: string
  log_error :: "string option"

text \<open>What the handler does to the outside world, in order.\<close>

datatype event = SendMail mail | LogCreate log_entry | Warn string | Delay nat

datatype body =
    Error string "string option"
  | Batch nat nat nat "string list option"

datatype response = Response nat body

text \<open>
  The collaborators of the handler. A lookup or a library call that rejects is \<open>Inl\<close> of
  the message. \<open>sendMail\<close> and \<open>logCreate\<close> answer \<open>None\<close> when the call resolves and
  \<open>Some\<close> of the message when it rejects; their first argument is the index of the row
  being processed, so that the answer may change from one call to the next.
  \<open>readSheet\<close> is \<open>XLSX.read\<close> followed by \<open>sheet_to_json\<close>; its flag says whether the
  buffer is read as CSV text. \<open>findAccount env (PNum n)\<close> is the lookup with the Number
  nearest to \<open>n\<close>. The three utilities of the repository whose source is not at hand
  (\<open>formatEmailHtml\<close>, \<open>decryptEmailPassword\<close>, \<open>prepareAttachmentsForSending\<close>) return
  a value or throw; \<open>nodemailerCreate\<close> answers for \<open>nodemailer.createTransport\<close> on the
  given options: \<open>None\<close> when it returns the transporter, \<open>Some\<close> of the message when
  it throws.
\<close>

record env =
  findAccount :: "pk \<Rightarrow> string + account option"
  findTemplate :: "string \<Rightarrow> string + template option"
  readSheet :: "bool \<Rightarrow> string \<Rightarrow> string + row list"
  formatEmailHtml :: "string \<Rightarrow> string + string"
  decryptEmailPassword :: "string \<Rightarrow> string + string"
  prepareAttachmentsForSending :: "string list \<Rightarrow> string + string list"
  nodemailerCreate :: "transport \<Rightarrow> string option"
  sendMail :: "nat \<Rightarrow> transport \<Rightarrow> mail \<Rightarrow> string option"
  logCreate :: "nat \<Rightarrow> log_entry \<Rightarrow> string option"
  regexp :: regexp_engine

subsection \<open>Before the row loop\<close>

definition parseFile :: "env \<Rightarrow> upload \<Rightarrow> string + row list" where
  "parseFile env f =
     (let csv = (mimetype f = ''text/csv'' \<or> mimetype f = ''application/csv'' \<or>
                 endsWith (toLowerCase (originalname f)) ''.csv'')
      in case readSheet env csv (buffer f) of
           Inl m \<Rightarrow> Inl (''Failed to parse file: '' @ m)
         | Inr data \<Rightarrow>
             if data = [] then Inl (''Failed to parse file: '' @ ''File is empty or has no data rows'')
             else Inr data)"

definition resolve_account :: "env \<Rightarrow> string \<Rightarrow> string + account option" where
  "resolve_account env ident =
     (case findAccount env (PStr ident) of
        Inl e \<Rightarrow> Inl e
      | Inr (Some a) \<Rightarrow> Inr (Some a)
      | Inr None \<Rightarrow>
          (case parseInt ident of
             None \<Rightarrow> Inr None
           | Some asNumber \<Rightarrow> findAccount env (PNum asNumber)))"

definition or_empty :: "string option \<Rightarrow> string" where
  "or_empty x = (case x of None \<Rightarrow> [] | Some s \<Rightarrow> s)"

definition resolve_template :: "env \<Rightarrow> string option \<Rightarrow> string + string list" where
  "resolve_template env tid =
     (if falsy tid then Inr []
      else case findTemplate env (or_empty tid) of
             Inl e \<Rightarrow> Inl e
           | Inr None \<Rightarrow> Inr []
           | Inr (Some t) \<Rightarrow>
               (case tpl_attachments t of
                  None \<Rightarrow> Inr []
                | Some as \<Rightarrow> prepareAttachmentsForSending env as))"

text \<open>The options are built first, the password being decrypted on the way; then
  \<open>nodemailer.createTransport\<close> is called with them.\<close>

definition createTransport :: "env \<Rightarrow> account \<Rightarrow> string + transport" where
  "createTransport env a =
     (case decryptEmailPassword env (smtpPassword a) of
        Inl e \<Rightarrow> Inl e
      | Inr pass \<Rightarrow>
          (let options =
                 \<lparr>host = smtpHost a, port = smtpPort a, secure = (smtpPort a = 465),
                  requireTLS = (smtpPort a = 587), auth_user = smtpUsername a,
                  auth_pass = pass\<rparr>
           in case nodemailerCreate env options of
                Some e \<Rightarrow> Inl e
              | None \<Rightarrow> Inr options))"

text \<open>What the loop reads: the values computed before it.\<close>

record ctx =
  the_account :: account
  the_subject :: string
  the_bodyHtml :: "string option"
  finalBodyText :: string
  templateAttachments :: "string list"
  recipients :: "row list"
  emailColumn :: string
  transporter :: transport
  formattedBodyHtml :: string

definition server_error :: "string \<Rightarrow> response" where
  "server_error m = Response 500 (Error ''Failed to send bulk emails'' (Some m))"

definition bad_request :: "string \<Rightarrow> response" where
  "bad_request m = Response 400 (Error m None)"

definition missing_column :: string where
  "missing_column =
     ''Email column not found. Please ensure your file has a column named '' @ [CHR 0x22]
       @ ''Email'' @ [CHR 0x22] @ '' (case-insensitive)''"

text \<open>
  Everything up to the loop, in the order of the source: \<open>Inl\<close> is the response of an
  early return (or of the outer \<open>catch\<close>, which answers 500 to whatever is thrown outside
  the loop), \<open>Inr\<close> the values the loop starts with.
\<close>

definition step_setup ::
  "env \<Rightarrow> request \<Rightarrow> string \<Rightarrow> account \<Rightarrow> string list \<Rightarrow> row list \<Rightarrow> string \<Rightarrow> response + ctx" where
  "step_setup env req fbt a atts rs col =
     (case createTransport env a of
        Inl e \<Rightarrow> Inl (server_error e)
      | Inr tr \<Rightarrow>
          (case formatEmailHtml env (or_empty (bodyHtml req)) of
             Inl e \<Rightarrow> Inl (server_error e)
           | Inr html \<Rightarrow>
               Inr \<lparr>the_account = a, the_subject = or_empty (subject req),
                    the_bodyHtml = bodyHtml req, finalBodyText = fbt,
                    templateAttachments = atts, recipients = rs, emailColumn = col,
                    transporter = tr, formattedBodyHtml = html\<rparr>))"

definition step_file :: "env \<Rightarrow> request \<Rightarrow> upload \<Rightarrow> string \<Rightarrow> account \<Rightarrow> string list \<Rightarrow> response + ctx" where
  "step_file env req f fbt a atts =
     (case parseFile env f of
        Inl m \<Rightarrow> Inl (bad_request m)
      | Inr rs \<Rightarrow>
          (if length rs = 0 then Inl (bad_request ''No recipients found in file'')
           else (case findEmailColumn (hd rs) of
                   None \<Rightarrow> Inl (bad_request missing_column)
                 | Some col \<Rightarrow> step_setup env req fbt a atts rs col)))"

definition step_template :: "env \<Rightarrow> request \<Rightarrow> upload \<Rightarrow> string \<Rightarrow> account \<Rightarrow> response + ctx" where
  "step_template env req f fbt a =
     (case resolve_template env (templateId req) of
        Inl e \<Rightarrow> Inl (server_error e)
      | Inr atts \<Rightarrow> step_file env req f fbt a atts)"

definition step_account :: "env \<Rightarrow> request \<Rightarrow> upload \<Rightarrow> string \<Rightarrow> response + ctx" where
  "step_account env req f fbt =
     (case resolve_account env (or_empty (emailAccountId req)) of
        Inl e \<Rightarrow> Inl (server_error e)
      | Inr None \<Rightarrow> Inl (Response 404 (Error ''Email account not found'' None))
      | Inr (Some a) \<Rightarrow>
          (if acc_type a \<noteq> ''smtp'' \<and> acc_type a \<noteq> ''both''
           then Inl (bad_request ''Selected account does not support SMTP sending'')
           else step_template env req f fbt a))"

definition body_text :: "request \<Rightarrow> string" where
  "body_text req =
     (if \<not> falsy (bodyText req) then or_empty (bodyText req)
      else if \<not> falsy (bodyHtml req) then stripTags (or_empty (bodyHtml req))
      else [])"

definition pre_loop :: "env \<Rightarrow> request \<Rightarrow> response + ctx" where
  "pre_loop env req =
     (case req_file req of
        None \<Rightarrow> Inl (bad_request ''File is required'')
      | Some f \<Rightarrow>
          (if falsy (emailAccountId req) then Inl (bad_request ''Email account ID is required'')
           else if falsy (subject req) \<or> trim (or_empty (subject req)) = []
             then Inl (bad_request ''Subject is required'')
           else if body_text req = [] \<or> trim (body_text req) = []
             then Inl (bad_request ''Email body is required'')
           else step_account env req f (body_text req)))"

subsection \<open>The row loop\<close>

record loop_state =
  successCount :: nat
  failedCount :: nat
  errors :: "string list"
  trace :: "event list"

text \<open>\<open>EmailLog.create\<close> inside its own \<open>try\<close>: a rejection only prints a warning.\<close>

definition log_outcome :: "env \<Rightarrow> nat \<Rightarrow> log_entry \<Rightarrow> string \<Rightarrow> event list" where
  "log_outcome env i entry label =
     LogCreate entry #
       (case logCreate env i entry of
          None \<Rightarrow> []
        | Some m \<Rightarrow> [Warn (label @ '' '' @ m)])"

text \<open>The \<open>catch (sendError)\<close> block.\<close>

definition catch_send :: "env \<Rightarrow> ctx \<Rightarrow> nat \<Rightarrow> string \<Rightarrow> string \<Rightarrow> loop_state \<Rightarrow> loop_state" where
  "catch_send env ctx i recipientEmail message st =
     st\<lparr>failedCount := failedCount st + 1,
        errors := errors st @
          [''Row '' @ show_nat (i + 2) @ '' ('' @ recipientEmail @ ''): '' @ message],
        trace := trace st @
          log_outcome env i
            \<lparr>log_account = acc_id (the_account ctx), log_to = trim recipientEmail,
             log_subject = the_subject ctx, log_status = ''failed'',
             log_error = Some message\<rparr>
            ''Failed to log email error:''\<rparr>"

text \<open>The \<open>try\<close> block up to \<open>sendMail\<close>: the variables of the row and the three
  substitutions. \<open>formattedBodyHtml || bodyHtml\<close> is empty or undefined when the formatted
  body is empty, and \<open>replaceTemplateVariables\<close> returns the empty string for either.\<close>

definition build_variables :: "row \<Rightarrow> row" where
  "build_variables recipient = map (\<lambda>(key, val). (key, if val = [] then [] else val)) recipient"

definition personalize :: "env \<Rightarrow> ctx \<Rightarrow> row \<Rightarrow> string \<Rightarrow> string + mail" where
  "personalize env ctx recipient recipientEmail =
     (let variables = build_variables recipient
      in case replaceTemplateVariables (regexp env) (the_subject ctx) variables of
           Inl e \<Rightarrow> Inl e
         | Inr personalizedSubject \<Rightarrow>
      (case replaceTemplateVariables (regexp env)
              (if formattedBodyHtml ctx \<noteq> [] then formattedBodyHtml ctx
               else or_empty (the_bodyHtml ctx)) variables of
           Inl e \<Rightarrow> Inl e
         | Inr personalizedBodyHtml \<Rightarrow>
      (case replaceTemplateVariables (regexp env) (finalBodyText ctx) variables of
           Inl e \<Rightarrow> Inl e
         | Inr personalizedBodyText \<Rightarrow>
             Inr \<lparr>mail_from = acc_name (the_account ctx) @ '' <'' @ acc_email (the_account ctx) @ ''>'',
                  mail_to = trim recipientEmail,
                  mail_subject = personalizedSubject,
                  mail_text = personalizedBodyText,
                  mail_html = personalizedBodyHtml,
                  mail_attachments =
                    (if length (templateAttachments ctx) > 0
                     then Some (templateAttachments ctx) else None)\<rparr>)))"

text \<open>The \<open>try\<close> and \<open>catch\<close> of one row whose address passed validation.\<close>

definition try_send :: "env \<Rightarrow> ctx \<Rightarrow> nat \<Rightarrow> row \<Rightarrow> string \<Rightarrow> loop_state \<Rightarrow> loop_state" where
  "try_send env ctx i recipient recipientEmail st =
     (case personalize env ctx recipient recipientEmail of
        Inl message \<Rightarrow> catch_send env ctx i recipientEmail message st
      | Inr mailOptions \<Rightarrow>
          (let st1 = st\<lparr>trace := trace st @ [SendMail mailOptions]\<rparr>
           in case sendMail env i (transporter ctx) mailOptions of
                Some message \<Rightarrow> catch_send env ctx i recipientEmail message st1
              | None \<Rightarrow>
                  st1\<lparr>trace := trace st1 @
                        log_outcome env i
                          \<lparr>log_account = acc_id (the_account ctx),
                           log_to = trim recipientEmail,
                           log_subject = mail_subject mailOptions,
                           log_status = ''sent'', log_error = None\<rparr>
                          ''Failed to log email:'',
                      successCount := successCount st1 + 1\<rparr>))"

definition invalid_line :: "nat \<Rightarrow> string option \<Rightarrow> string" where
  "invalid_line i recipientEmail =
     ''Row '' @ show_nat (i + 2) @ '': Invalid or missing email address '' @ [CHR 0x22]
       @ show_cell recipientEmail @ [CHR 0x22]"

text \<open>One iteration of the \<open>for\<close> loop, for \<open>i\<close> below the number of rows.\<close>

definition row_body :: "env \<Rightarrow> ctx \<Rightarrow> nat \<Rightarrow> loop_state \<Rightarrow> loop_state" where
  "row_body env ctx i st =
     (let recipient = recipients ctx ! i;
          recipientEmail = map_of recipient (emailColumn ctx)
      in if falsy recipientEmail \<or> \<not> isValidEmail recipientEmail then
           st\<lparr>failedCount := failedCount st + 1,
              errors := errors st @ [invalid_line i recipientEmail]\<rparr>
         else
           (let st1 = try_send env ctx i recipient (or_empty recipientEmail) st
            in if i < length (recipients ctx) - 1
               then st1\<lparr>trace := trace st1 @ [Delay 100]\<rparr>
               else st1))"

function row_loop :: "env \<Rightarrow> ctx \<Rightarrow> nat \<Rightarrow> loop_state \<Rightarrow> loop_state" where
  "row_loop env ctx i st =
     (if i < length (recipients ctx) then row_loop env ctx (Suc i) (row_body env ctx i st)
      else st)"
  by pat_completeness auto
termination
  by (relation "measure (\<lambda>(env, ctx, i, st). length (recipients ctx) - i)") auto

declare row_loop.simps [simp del]

definition initial_state :: loop_state where
  "initial_state = \<lparr>successCount = 0, failedCount = 0, errors = [], trace = []\<rparr>"

text \<open>The handler: its response and what it did on the way.\<close>

definition send_handler :: "env \<Rightarrow> request \<Rightarrow> response \<times> event list" where
  "send_handler env req =
     (case pre_loop env req of
        Inl r \<Rightarrow> (r, [])
      | Inr ctx \<Rightarrow>
          (let st = row_loop env ctx 0 initial_state
           in (Response 200
                 (Batch (successCount st) (failedCount st) (length (recipients ctx))
                    (if length (errors st) > 0 then Some (errors st) else None)),
               trace st)))"

section \<open>The results panel of the form\<close>

text \<open>The list items rendered under "Errors:" for the \<open>errors\<close> field of a result.\<close>

definition render_errors :: "string list option \<Rightarrow> string list" where
  "render_errors errs =
     (case errs of
        None \<Rightarrow> []
      | Some es \<Rightarrow>
          (if length es > 0
           then take 50 es @
                  (if length es > 50
                   then [''...and '' @ show_nat (length es - 50) @ '' more errors'']
                   else [])
           else []))"

section \<open>Vocabulary of the properties\<close>

text \<open>The literal text of a placeholder, and a column name that holds no character with
  a meaning in pattern syntax.\<close>

definition braces :: "string \<Rightarrow> string" where
  "braces key = CHR ''{'' # key @ ''}''"

definition plain_key :: "string \<Rightarrow> bool" where
  "plain_key key \<longleftrightarrow> (\<forall>c \<in> set key. \<not> syntax_char c)"

text \<open>A value in which no dollar sign starts a replacement pattern (\<open>$$\<close>, \<open>$&\<close>, \<open>$`\<close>
  or \<open>$'\<close>); a dollar sign before anything else, as in \<open>$100\<close>, is allowed.\<close>

fun no_dollar_pattern :: "string \<Rightarrow> bool" where
  "no_dollar_pattern [] = True"
| "no_dollar_pattern [c] = True"
| "no_dollar_pattern (c # d # r) =
     ((c = CHR ''$'' \<longrightarrow> d \<noteq> CHR ''$'' \<and> d \<noteq> CHR ''&'' \<and> d \<noteq> CHR 0x60 \<and> d \<noteq> CHR 0x27)
      \<and> no_dollar_pattern (d # r))"

text \<open>Literal substitution of one variable, after the words of the specification: every
  occurrence of \<open>{key}\<close>, found from the left, gives way to the value as it stands.\<close>

fun replace_literal :: "string \<Rightarrow> string \<Rightarrow> string \<Rightarrow> string" where
  "replace_literal key v [] = []"
| "replace_literal key v (c # cs) =
     (if prefix (braces key) (c # cs)
      then v @ replace_literal key v (drop (Suc (length key)) cs)
      else c # replace_literal key v cs)"

text \<open>Simultaneous substitution, after the words of the specification: one pass over the
  template; where the placeholder of a variable of the mapping starts, its value is put
  and the pass continues behind the placeholder; values are not read again.\<close>

fun substitute_once :: "row \<Rightarrow> string \<Rightarrow> string" where
  "substitute_once vars [] = []"
| "substitute_once vars (c # cs) =
     (case find (\<lambda>kv. prefix (braces (fst kv)) (c # cs)) vars of
        Some kv \<Rightarrow> snd kv @ substitute_once vars (drop (Suc (length (fst kv))) cs)
      | None \<Rightarrow> c # substitute_once vars cs)"

text \<open>A part of an address: not empty, without white space and without \<open>@\<close>.\<close>

definition address_chars :: "string \<Rightarrow> bool" where
  "address_chars s \<longleftrightarrow> s \<noteq> [] \<and> (\<forall>c \<in> set s. \<not> is_space c \<and> c \<noteq> CHR ''@'')"

text \<open>The cell of row \<open>i\<close> in the email column, whether it passes the check at the head of
  the loop body, the events of the \<open>try\<close> block of that row, and the events and error
  lines that one iteration adds.\<close>

definition cell :: "ctx \<Rightarrow> nat \<Rightarrow> string option" where
  "cell ctx i = map_of (recipients ctx ! i) (emailColumn ctx)"

definition row_valid :: "ctx \<Rightarrow> nat \<Rightarrow> bool" where
  "row_valid ctx i \<longleftrightarrow> \<not> (falsy (cell ctx i) \<or> \<not> isValidEmail (cell ctx i))"

definition attempt_events :: "env \<Rightarrow> ctx \<Rightarrow> nat \<Rightarrow> event list" where
  "attempt_events env ctx i =
     trace (try_send env ctx i (recipients ctx ! i) (or_empty (cell ctx i)) initial_state)"

definition row_events :: "env \<Rightarrow> ctx \<Rightarrow> nat \<Rightarrow> event list" where
  "row_events env ctx i =
     (if row_valid ctx i
      then attempt_events env ctx i @ (if i < length (recipients ctx) - 1 then [Delay 100] else [])
      else [])"

definition row_errors :: "env \<Rightarrow> ctx \<Rightarrow> nat \<Rightarrow> string list" where
  "row_errors env ctx i = errors (row_body env ctx i initial_state)"

fun is_delay :: "event \<Rightarrow> bool" where
  "is_delay (Delay d) = True"
| "is_delay e = False"

fun is_send :: "event \<Rightarrow> bool" where
  "is_send (SendMail m) = True"
| "is_send e = False"

text \<open>Delays exactly between consecutive sends: among the sends and delays of a run,
  a send comes first and last, and sends and delays alternate.\<close>

fun alternate :: "event list \<Rightarrow> bool" where
  "alternate [] = True"
| "alternate [e] = is_send e"
| "alternate (e # d # es) = (is_send e \<and> is_delay d \<and> es \<noteq> [] \<and> alternate es)"

definition pacing :: "event list \<Rightarrow> event list" where
  "pacing tr = filter (\<lambda>e. is_send e \<or> is_delay e) tr"

definition delays_between_sends :: "event list \<Rightarrow> bool" where
  "delays_between_sends tr = alternate (pacing tr)"






text \<open>The error list a response carries.\<close>

fun reported_errors :: "response \<Rightarrow> string list" where
  "reported_errors (Response c (Batch s f t (Some es))) = es"
| "reported_errors r = []"

section \<open>A sample account, request and spreadsheets\<close>

definition sample_account :: account where
  "sample_account =
     \<lparr>acc_id = 12, acc_name = ''CRM'', acc_email = ''crm@x.com'', acc_type = ''smtp'',
      smtpHost = ''smtp.x.com'', smtpPort = 587, smtpUsername = ''crm'',
      smtpPassword = ''secret''\<rparr>"

definition no_engine :: regexp_engine where
  "no_engine source v s = Inl ''Invalid regular expression''"

text \<open>The store holds one account, under the number 12; the spreadsheet library returns
  the given rows; the transport rejects the rows whose index is in \<open>down\<close>.\<close>

definition sample_env :: "row list \<Rightarrow> nat list \<Rightarrow> env" where
  "sample_env rows down =
     \<lparr>findAccount = (\<lambda>k. Inr (if k = PNum 12 then Some sample_account else None)),
      findTemplate = (\<lambda>t. Inr None),
      readSheet = (\<lambda>csv b. Inr rows),
      formatEmailHtml = (\<lambda>h. Inr h),
      decryptEmailPassword = (\<lambda>p. Inr p),
      prepareAttachmentsForSending = (\<lambda>as. Inr as),
      nodemailerCreate = (\<lambda>options. None),
      sendMail = (\<lambda>i t m. if i \<in> set down then Some ''Connection refused'' else None),
      logCreate = (\<lambda>i e. None),
      regexp = no_engine\<rparr>"

definition sample_request :: request where
  "sample_request =
     \<lparr>req_file = Some \<lparr>mimetype = ''text/csv'', originalname = ''recipients.csv'', buffer = []\<rparr>,
      emailAccountId = Some ''12abc'',
      subject = Some ''Hi {Name}'',
      bodyHtml = Some ''<p>Dear {Name}</p>'',
      bodyText = None,
      templateId = None\<rparr>"


definition bad_rows :: "nat \<Rightarrow> row list" where
  "bad_rows n = replicate n [(''Email'', ''bad'')]"

definition two_rows :: "row list" where
  "two_rows = [[(''Email'', ''a@x.com''), (''Name'', ''Alice'')], [(''Email'', ''bad''), (''Name'', ''Bob'')]]"

definition three_rows :: "row list" where
  "three_rows =
     [[(''Email'', ''a@x.com''), (''Name'', ''Alice'')],
      [(''Email'', ''bad''), (''Name'', ''Bob'')],
      [(''Email'', ''c@x.com''), (''Name'', ''Carol'')]]"

section \<open>Column names without pattern syntax\<close>

text \<open>For such a name the pattern matches the literal placeholder and nothing else, and a
  value without a replacement pattern is inserted as it stands.\<close>

lemma tokens_plain_cons:
  "\<not> syntax_char c \<Longrightarrow> tokens (c # cs) = map_option ((#) (TAtom (Lit c))) (tokens cs)"
  by (cases cs) (auto simp: syntax_char_def)

lemma tokens_plain_run:
  "plain_key k \<Longrightarrow>
   tokens (k @ [CHR 0x5C, CHR ''}'']) = Some (map (\<lambda>c. TAtom (Lit c)) (k @ ''}''))"
  by (induction k) (simp_all add: plain_key_def tokens_plain_cons syntax_char_def)

lemma tokens_placeholder:
  "plain_key k \<Longrightarrow> tokens (placeholder k) = Some (map (\<lambda>c. TAtom (Lit c)) (braces k))"
  using tokens_plain_run [of k]
  by (simp add: placeholder_def braces_def syntax_char_def)

lemma alternatives_literals:
  "alternatives (map (\<lambda>c. TAtom (Lit c)) xs) cur = [cur @ map Lit xs]"
  by (induction xs arbitrary: cur) simp_all

lemma match_here_literals: "match_here (map Lit xs) s \<longleftrightarrow> prefix xs s"
proof (induction xs arbitrary: s)
  case Nil
  show ?case by simp
next
  case (Cons x xs)
  show ?case by (cases s) (auto simp: Cons.IH)
qed

lemma getSubstitution_plain:
  "no_dollar_pattern v \<Longrightarrow> getSubstitution m l r v = v"
  by (induction m l r v rule: getSubstitution.induct) auto

lemma first_alternative_literal:
  "first_alternative [map Lit (braces k)] s =
     (if prefix (braces k) s then Some (Suc (Suc (length k))) else None)"
  by (simp add: match_here_literals) (simp add: braces_def)

lemma dollar_free_no_pattern: "CHR ''$'' \<notin> set w \<Longrightarrow> no_dollar_pattern w"
  by (induction w rule: no_dollar_pattern.induct) auto

lemma replace_global_literal:
  "no_dollar_pattern v \<Longrightarrow>
   replace_global [map Lit (braces k)] v l s = replace_literal k v s"
proof (induction k v s arbitrary: l rule: replace_literal.induct)
  case (1 key v)
  have "\<not> prefix (braces key) []" by (simp add: braces_def)
  then show ?case by (simp add: first_alternative_literal del: first_alternative.simps)
next
  case (2 key v c cs)
  show ?case
  proof (cases "prefix (braces key) (c # cs)")
    case True
    with 2 show ?thesis
      by (simp add: first_alternative_literal getSubstitution_plain del: first_alternative.simps)
  next
    case False
    with 2 show ?thesis
      by (simp add: first_alternative_literal del: first_alternative.simps)
  qed
qed

lemma regexp_replace_plain:
  "plain_key k \<Longrightarrow> no_dollar_pattern v \<Longrightarrow>
   regexp_replace rx (placeholder k) v s = Inr (replace_literal k v s)"
  by (simp add: regexp_replace_def tokens_placeholder alternatives_literals replace_global_literal)

lemma replace_keys_plain:
  "\<forall>kv \<in> set vars. plain_key (fst kv) \<and> no_dollar_pattern (snd kv) \<Longrightarrow>
   replace_keys rx vars s = Inr (foldl (\<lambda>acc kv. replace_literal (fst kv) (snd kv) acc) s vars)"
  by (induction vars arbitrary: s) (auto simp: regexp_replace_plain)

lemma no_early_placeholder:
  assumes k: "CHR ''{'' \<notin> set k" and p: "\<not> sublist (braces k) (c # p)"
  shows "\<not> prefix (braces k) (c # p @ braces k @ q)"
proof
  assume "prefix (braces k) (c # p @ braces k @ q)"
  then obtain zs where "(c # p) @ (braces k @ q) = braces k @ zs"
    by (auto simp: prefix_def)
  then obtain us where us: "(c # p = braces k @ us \<and> us @ braces k @ q = zs)
      \<or> ((c # p) @ us = braces k \<and> braces k @ q = us @ zs)"
    by (auto simp only: append_eq_append_conv2)
  then show False
  proof
    assume "c # p = braces k @ us \<and> us @ braces k @ q = zs"
    then have "prefix (braces k) (c # p)" by (simp add: prefix_def)
    with p show False by (auto dest: prefix_imp_sublist)
  next
    assume a: "(c # p) @ us = braces k \<and> braces k @ q = us @ zs"
    show False
    proof (cases us)
      case Nil
      with a have "prefix (braces k) (c # p)" by simp
      with p show False by (auto dest: prefix_imp_sublist)
    next
      case (Cons u us')
      with a have "u = CHR ''{''" by (simp add: braces_def)
      with a Cons have "CHR ''{'' \<in> set (tl (braces k))"
        by (metis append_Cons in_set_conv_decomp list.sel(3))
      with k show False by (simp add: braces_def)
    qed
  qed
qed

lemma replace_literal_first:
  assumes "CHR ''{'' \<notin> set k" and "\<not> sublist (braces k) p"
  shows "replace_literal k v (p @ braces k @ q) = p @ v @ replace_literal k v q"
  using assms(2)
proof (induction p)
  case Nil
  have "braces k @ q = CHR ''{'' # (k @ ''}'' @ q)" by (simp add: braces_def)
  moreover have "prefix (braces k) (braces k @ q)" by simp
  ultimately show ?case by (simp add: braces_def)
next
  case (Cons c p)
  from no_early_placeholder [OF assms(1) Cons.prems]
  have "\<not> prefix (braces k) (c # p @ braces k @ q)" .
  moreover from Cons.prems have "\<not> sublist (braces k) p"
    by (meson sublist_Cons_right)
  ultimately show ?case using Cons.IH by simp
qed

lemma replace_literal_absent:
  "\<not> sublist (braces k) s \<Longrightarrow> replace_literal k v s = s"
proof (induction s)
  case Nil
  show ?case by simp
next
  case (Cons c cs)
  from Cons.prems have "\<not> prefix (braces k) (c # cs)"
    using prefix_imp_sublist by blast
  moreover from Cons.prems have "\<not> sublist (braces k) cs"
    by (meson sublist_Cons_right)
  ultimately show ?case using Cons.IH by simp
qed

lemma foldl_replace_literal_absent:
  "\<forall>kv \<in> set vars. \<not> sublist (braces (fst kv)) s \<Longrightarrow>
   foldl (\<lambda>acc kv. replace_literal (fst kv) (snd kv) acc) s vars = s"
  by (induction vars) (simp_all add: replace_literal_absent)

lemma braceless_no_placeholder: "CHR ''{'' \<notin> set s \<Longrightarrow> \<not> sublist (braces k) s"
  by (auto simp: sublist_def braces_def)

text \<open>Where no placeholder of a plain name occurs, nothing is replaced, whatever the
  value: text without an opening brace passes through such names unchanged.\<close>

lemma replace_global_absent:
  "\<not> sublist (braces k) s \<Longrightarrow> replace_global [map Lit (braces k)] v l s = s"
proof (induction s arbitrary: l)
  case Nil
  have "\<not> prefix (braces k) []" by (simp add: braces_def)
  then show ?case by (simp add: first_alternative_literal del: first_alternative.simps)
next
  case (Cons c cs)
  from Cons.prems have "\<not> prefix (braces k) (c # cs)"
    using prefix_imp_sublist by blast
  moreover from Cons.prems have "\<not> sublist (braces k) cs"
    by (meson sublist_Cons_right)
  ultimately show ?case
    using Cons.IH by (simp add: first_alternative_literal del: first_alternative.simps)
qed

lemma plain_keys_leave_braceless_text:
  assumes "\<forall>kv \<in> set vars. plain_key (fst kv)" and "CHR ''{'' \<notin> set s"
  shows "replaceTemplateVariables rx s vars = Inr s"
proof -
  have "replace_keys rx vars s = Inr s"
    using assms(1)
  proof (induction vars)
    case Nil
    show ?case by simp
  next
    case (Cons kv vars)
    obtain k v where kv: "kv = (k, v)" by (cases kv)
    from Cons.prems kv have "plain_key k" by simp
    then have "regexp_replace rx (placeholder k) v s = Inr s"
      using braceless_no_placeholder [OF assms(2), of k]
      by (simp add: regexp_replace_def tokens_placeholder alternatives_literals
            replace_global_absent)
    with Cons kv show ?case by simp
  qed
  then show ?thesis by (simp add: replaceTemplateVariables_def)
qed

text \<open>A dollar sign in a value is read as a replacement pattern: the value \<open>$&\<close> puts the
  placeholder back, and \<open>$$\<close> leaves a single dollar sign.\<close>

lemma dollar_patterns_in_values:
  "replaceTemplateVariables rx ''Pay {Fee}'' [(''Fee'', ''$&'')] = Inr ''Pay {Fee}''"
  "replaceTemplateVariables rx ''Pay {Fee}'' [(''Fee'', ''$$5'')] = Inr ''Pay $5''"
  by (simp_all add: replaceTemplateVariables_def regexp_replace_def placeholder_def syntax_char_def)

lemma replace_keys_snoc:
  "replace_keys rx (vars @ [(k, v)]) s =
     (case replace_keys rx vars s of
        Inl e \<Rightarrow> Inl e
      | Inr r \<Rightarrow> regexp_replace rx (placeholder k) v r)"
  by (induction vars arbitrary: s) (auto split: sum.splits)

section \<open>The loop, one iteration at a time\<close>

lemma log_outcome_no_delay: "\<not> is_delay e \<or> e \<notin> set (log_outcome env i entry label)"
  by (cases e) (auto simp: log_outcome_def split: option.splits)

lemma catch_send_fields:
  "successCount (catch_send env ctx i e m st) = successCount st"
  "failedCount (catch_send env ctx i e m st) = failedCount st + 1"
  "errors (catch_send env ctx i e m st) =
     errors st @ [''Row '' @ show_nat (i + 2) @ '' ('' @ e @ ''): '' @ m]"
  by (simp_all add: catch_send_def)

lemma catch_send_trace:
  "trace (catch_send env ctx i e m st) = trace st @ trace (catch_send env ctx i e m initial_state)"
  by (simp add: catch_send_def initial_state_def)

lemma try_send_counts:
  "(successCount (try_send env ctx i r e st) = successCount st + 1 \<and>
    failedCount (try_send env ctx i r e st) = failedCount st \<and>
    errors (try_send env ctx i r e st) = errors st)
   \<or> (successCount (try_send env ctx i r e st) = successCount st \<and>
       failedCount (try_send env ctx i r e st) = failedCount st + 1 \<and>
       length (errors (try_send env ctx i r e st)) = length (errors st) + 1)"
  by (simp add: try_send_def catch_send_fields Let_def split: sum.splits option.splits)

lemma try_send_trace:
  "trace (try_send env ctx i r e st) = trace st @ trace (try_send env ctx i r e initial_state)"
  by (simp add: try_send_def catch_send_def initial_state_def Let_def split: sum.splits option.splits)

lemma try_send_errors:
  "errors (try_send env ctx i r e st) = errors st @ errors (try_send env ctx i r e initial_state)"
  by (simp add: try_send_def catch_send_def initial_state_def Let_def split: sum.splits option.splits)

lemma attempt_no_delay: "e \<in> set (attempt_events env ctx i) \<Longrightarrow> \<not> is_delay e"
  using log_outcome_no_delay [of e env i]
  by (auto simp: attempt_events_def try_send_def catch_send_def initial_state_def Let_def
           split: sum.splits option.splits)

lemma row_body_invalid:
  "\<not> row_valid ctx i \<Longrightarrow>
   row_body env ctx i st =
     st\<lparr>failedCount := failedCount st + 1,
        errors := errors st @ [invalid_line i (cell ctx i)]\<rparr>"
  by (simp add: row_body_def row_valid_def cell_def Let_def)

lemma row_body_valid:
  "row_valid ctx i \<Longrightarrow>
   row_body env ctx i st =
     (let st1 = try_send env ctx i (recipients ctx ! i) (or_empty (cell ctx i)) st
      in if i < length (recipients ctx) - 1 then st1\<lparr>trace := trace st1 @ [Delay 100]\<rparr> else st1)"
  by (simp add: row_body_def row_valid_def cell_def Let_def)

lemma row_body_counts:
  "(successCount (row_body env ctx i st) = successCount st + 1 \<and>
    failedCount (row_body env ctx i st) = failedCount st \<and>
    length (errors (row_body env ctx i st)) = length (errors st))
   \<or> (successCount (row_body env ctx i st) = successCount st \<and>
       failedCount (row_body env ctx i st) = failedCount st + 1 \<and>
       length (errors (row_body env ctx i st)) = length (errors st) + 1)"
proof (cases "row_valid ctx i")
  case True
  show ?thesis
    using try_send_counts [of env ctx i "recipients ctx ! i" "or_empty (cell ctx i)" st]
    by (auto simp: row_body_valid [OF True] Let_def)
next
  case False
  then show ?thesis by (simp add: row_body_invalid)
qed

lemma row_body_trace: "trace (row_body env ctx i st) = trace st @ row_events env ctx i"
proof (cases "row_valid ctx i")
  case True
  show ?thesis
    using try_send_trace [of env ctx i "recipients ctx ! i" "or_empty (cell ctx i)" st]
    by (simp add: row_body_valid [OF True] row_events_def True attempt_events_def Let_def)
next
  case False
  then show ?thesis by (simp add: row_body_invalid row_events_def)
qed

lemma row_body_errors: "errors (row_body env ctx i st) = errors st @ row_errors env ctx i"
proof (cases "row_valid ctx i")
  case True
  show ?thesis
    using try_send_errors [of env ctx i "recipients ctx ! i" "or_empty (cell ctx i)" st]
    by (simp add: row_body_valid [OF True] row_errors_def Let_def initial_state_def)
next
  case False
  then show ?thesis by (simp add: row_body_invalid row_errors_def initial_state_def)
qed

lemma row_loop_counts:
  "i \<le> length (recipients ctx) \<Longrightarrow>
   successCount (row_loop env ctx i st) + failedCount (row_loop env ctx i st)
     = successCount st + failedCount st + (length (recipients ctx) - i)"
proof (induction env ctx i st rule: row_loop.induct)
  case (1 env ctx i st)
  show ?case
  proof (cases "i < length (recipients ctx)")
    case True
    then have "successCount (row_loop env ctx (Suc i) (row_body env ctx i st))
        + failedCount (row_loop env ctx (Suc i) (row_body env ctx i st))
      = successCount (row_body env ctx i st) + failedCount (row_body env ctx i st)
        + (length (recipients ctx) - Suc i)"
      using "1.IH" by simp
    with True row_body_counts [of env ctx i st] show ?thesis
      by (subst (1 2) row_loop.simps) auto
  next
    case False
    with "1.prems" show ?thesis by (subst (1 2) row_loop.simps) simp
  qed
qed

lemma row_loop_errors_length:
  "length (errors st) = failedCount st \<Longrightarrow>
   length (errors (row_loop env ctx i st)) = failedCount (row_loop env ctx i st)"
proof (induction env ctx i st rule: row_loop.induct)
  case (1 env ctx i st)
  show ?case
  proof (cases "i < length (recipients ctx)")
    case True
    have "length (errors (row_body env ctx i st)) = failedCount (row_body env ctx i st)"
      using row_body_counts [of env ctx i st] "1.prems" by auto
    with True "1.IH" show ?thesis by (subst (1 2) row_loop.simps) simp
  next
    case False
    with "1.prems" show ?thesis by (subst (1 2) row_loop.simps) simp
  qed
qed

lemma row_loop_trace:
  "trace (row_loop env ctx i st)
     = trace st @ concat (map (row_events env ctx) [i..<length (recipients ctx)])"
proof (induction env ctx i st rule: row_loop.induct)
  case (1 env ctx i st)
  show ?case
  proof (cases "i < length (recipients ctx)")
    case True
    with "1.IH" show ?thesis
      by (subst row_loop.simps) (simp add: row_body_trace upt_conv_Cons)
  next
    case False
    then show ?thesis by (subst row_loop.simps) simp
  qed
qed

lemma row_loop_errors:
  "errors (row_loop env ctx i st)
     = errors st @ concat (map (row_errors env ctx) [i..<length (recipients ctx)])"
proof (induction env ctx i st rule: row_loop.induct)
  case (1 env ctx i st)
  show ?case
  proof (cases "i < length (recipients ctx)")
    case True
    with "1.IH" show ?thesis
      by (subst row_loop.simps) (simp add: row_body_errors upt_conv_Cons)
  next
    case False
    then show ?thesis by (subst row_loop.simps) simp
  qed
qed

section \<open>What reaches the loop\<close>

lemma step_file_Inr:
  "step_file env req f fbt a atts = Inr ctx \<Longrightarrow>
   parseFile env f = Inr (recipients ctx) \<and> recipients ctx \<noteq> [] \<and>
   findEmailColumn (hd (recipients ctx)) = Some (emailColumn ctx) \<and> the_account ctx = a"
  by (auto simp: step_file_def step_setup_def split: sum.splits if_splits option.splits)

lemma step_account_Inr:
  "step_account env req f fbt = Inr ctx \<Longrightarrow>
   parseFile env f = Inr (recipients ctx) \<and> recipients ctx \<noteq> [] \<and>
   findEmailColumn (hd (recipients ctx)) = Some (emailColumn ctx) \<and>
   resolve_account env (or_empty (emailAccountId req)) = Inr (Some (the_account ctx))"
  by (auto simp: step_account_def step_template_def split: sum.splits if_splits option.splits
           dest: step_file_Inr)

lemma pre_loop_Inr:
  "pre_loop env req = Inr ctx \<Longrightarrow>
   \<exists>f. req_file req = Some f \<and> parseFile env f = Inr (recipients ctx) \<and>
       recipients ctx \<noteq> [] \<and> findEmailColumn (hd (recipients ctx)) = Some (emailColumn ctx) \<and>
       resolve_account env (or_empty (emailAccountId req)) = Inr (Some (the_account ctx))"
  by (auto simp: pre_loop_def split: option.splits if_splits dest: step_account_Inr)

lemma step_file_Inl:
  "step_file env req f fbt a atts = Inl r \<Longrightarrow> \<exists>c m d. r = Response c (Error m d)"
  by (auto simp: step_file_def step_setup_def bad_request_def server_error_def
           split: sum.splits if_splits option.splits)

lemma step_account_Inl:
  "step_account env req f fbt = Inl r \<Longrightarrow> \<exists>c m d. r = Response c (Error m d)"
  by (auto simp: step_account_def step_template_def bad_request_def server_error_def
           split: sum.splits if_splits option.splits dest: step_file_Inl)

lemma pre_loop_Inl:
  "pre_loop env req = Inl r \<Longrightarrow> \<exists>c m d. r = Response c (Error m d)"
  by (auto simp: pre_loop_def bad_request_def split: option.splits if_splits
           dest: step_account_Inl)

lemma send_handler_batch:
  "fst (send_handler env req) = Response code (Batch s f t errs) \<Longrightarrow>
   \<exists>ctx. pre_loop env req = Inr ctx \<and> code = 200 \<and>
     s = successCount (row_loop env ctx 0 initial_state) \<and>
     f = failedCount (row_loop env ctx 0 initial_state) \<and>
     t = length (recipients ctx) \<and>
     errs = (if length (errors (row_loop env ctx 0 initial_state)) > 0
             then Some (errors (row_loop env ctx 0 initial_state)) else None)"
  by (cases "pre_loop env req")
     (auto simp: send_handler_def Let_def dest: pre_loop_Inl)

lemma send_handler_loop:
  "pre_loop env req = Inr ctx \<Longrightarrow>
   send_handler env req =
     (Response 200
        (Batch (successCount (row_loop env ctx 0 initial_state))
           (failedCount (row_loop env ctx 0 initial_state)) (length (recipients ctx))
           (if length (errors (row_loop env ctx 0 initial_state)) > 0
            then Some (errors (row_loop env ctx 0 initial_state)) else None)),
      trace (row_loop env ctx 0 initial_state))"
  by (simp add: send_handler_def Let_def)

lemma send_handler_errors:
  "pre_loop env req = Inr ctx \<Longrightarrow>
   reported_errors (fst (send_handler env req))
     = concat (map (row_errors env ctx) [0..<length (recipients ctx)])"
  using row_loop_errors [of env ctx 0 initial_state]
  by (auto simp: send_handler_loop initial_state_def)

lemma send_handler_trace:
  "pre_loop env req = Inr ctx \<Longrightarrow>
   snd (send_handler env req) = concat (map (row_events env ctx) [0..<length (recipients ctx)])"
  using row_loop_trace [of env ctx 0 initial_state]
  by (simp add: send_handler_loop initial_state_def)

lemma send_handler_errors_length:
  "fst (send_handler env req) = Response code (Batch s f t errs) \<Longrightarrow>
   length (reported_errors (fst (send_handler env req))) = f"
proof -
  assume a: "fst (send_handler env req) = Response code (Batch s f t errs)"
  then obtain ctx where ctx: "pre_loop env req = Inr ctx"
    and f: "f = failedCount (row_loop env ctx 0 initial_state)"
    using send_handler_batch by blast
  have "length (errors (row_loop env ctx 0 initial_state)) = failedCount (row_loop env ctx 0 initial_state)"
    by (rule row_loop_errors_length) (simp add: initial_state_def)
  with f show ?thesis by (auto simp: send_handler_loop [OF ctx])
qed

lemma render_errors_short: "length es \<le> 50 \<Longrightarrow> render_errors (Some es) = es"
  by (simp add: render_errors_def)

lemma render_errors_long:
  "50 < length es \<Longrightarrow>
   render_errors (Some es) = take 50 es @ [''...and '' @ show_nat (length es - 50) @ '' more errors'']"
  by (auto simp: render_errors_def)

section \<open>The address pattern\<close>

lemma matches_once:
  "matches_whole (Once k # ps) s \<longleftrightarrow> (\<exists>c b. s = c # b \<and> in_class k c \<and> matches_whole ps b)"
  by (cases s) auto

lemma matches_plus:
  "matches_whole (Plus k # ps) s \<longleftrightarrow>
     (\<exists>a b. s = a @ b \<and> a \<noteq> [] \<and> (\<forall>c \<in> set a. in_class k c) \<and> matches_whole ps b)"
proof (induction s)
  case Nil
  show ?case by simp
next
  case (Cons c cs)
  show ?case
  proof
    assume "matches_whole (Plus k # ps) (c # cs)"
    then have c: "in_class k c" and d: "matches_whole (Plus k # ps) cs \<or> matches_whole ps cs"
      by auto
    from d show "\<exists>a b. c # cs = a @ b \<and> a \<noteq> [] \<and> (\<forall>c \<in> set a. in_class k c) \<and> matches_whole ps b"
    proof
      assume "matches_whole (Plus k # ps) cs"
      with Cons.IH obtain a b where "cs = a @ b" "\<forall>c \<in> set a. in_class k c" "matches_whole ps b"
        by blast
      with c have "c # cs = (c # a) @ b \<and> c # a \<noteq> [] \<and> (\<forall>x \<in> set (c # a). in_class k x) \<and> matches_whole ps b"
        by simp
      then show ?thesis by blast
    next
      assume "matches_whole ps cs"
      with c have "c # cs = [c] @ cs \<and> [c] \<noteq> [] \<and> (\<forall>x \<in> set [c]. in_class k x) \<and> matches_whole ps cs"
        by simp
      then show ?thesis by blast
    qed
  next
    assume "\<exists>a b. c # cs = a @ b \<and> a \<noteq> [] \<and> (\<forall>c \<in> set a. in_class k c) \<and> matches_whole ps b"
    then obtain a b where ab: "c # cs = a @ b" "a \<noteq> []" "\<forall>c \<in> set a. in_class k c" "matches_whole ps b"
      by blast
    then obtain a' where a: "a = c # a'" by (cases a) auto
    with ab have cs: "cs = a' @ b" and c: "in_class k c" by auto
    show "matches_whole (Plus k # ps) (c # cs)"
    proof (cases "a' = []")
      case True
      with cs ab c show ?thesis by simp
    next
      case False
      with ab a cs have "matches_whole (Plus k # ps) cs"
        using Cons.IH by auto
      with c show ?thesis by simp
    qed
  qed
qed

lemma emailRegex_shape:
  "matches_whole emailRegex s \<longleftrightarrow>
     (\<exists>l d t. s = l @ ''@'' @ d @ ''.'' @ t \<and> address_chars l \<and> address_chars d \<and> address_chars t)"
proof
  assume "matches_whole emailRegex s"
  then obtain l b where l: "s = l @ b" "l \<noteq> []" "\<forall>c \<in> set l. in_class NotSpaceAt c"
    and b: "matches_whole [Once (Exactly CHR ''@''), Plus NotSpaceAt, Once (Exactly CHR ''.''), Plus NotSpaceAt] b"
    unfolding emailRegex_def matches_plus [of NotSpaceAt "[Once (Exactly CHR ''@''), Plus NotSpaceAt, Once (Exactly CHR ''.''), Plus NotSpaceAt]"]
    by blast
  from b obtain b1 where b1: "b = CHR ''@'' # b1"
    and m1: "matches_whole [Plus NotSpaceAt, Once (Exactly CHR ''.''), Plus NotSpaceAt] b1"
    by (auto simp: matches_once)
  from m1 obtain d b2 where d: "b1 = d @ b2" "d \<noteq> []" "\<forall>c \<in> set d. in_class NotSpaceAt c"
    and m2: "matches_whole [Once (Exactly CHR ''.''), Plus NotSpaceAt] b2"
    unfolding matches_plus [of NotSpaceAt "[Once (Exactly CHR ''.''), Plus NotSpaceAt]"]
    by blast
  from m2 obtain t where t: "b2 = CHR ''.'' # t" and m3: "matches_whole [Plus NotSpaceAt] t"
    by (auto simp: matches_once)
  from m3 have "t \<noteq> []" "\<forall>c \<in> set t. in_class NotSpaceAt c"
    by (auto simp: matches_plus [of NotSpaceAt "[]"])
  with l d b1 t have "s = l @ ''@'' @ d @ ''.'' @ t \<and> address_chars l \<and> address_chars d \<and> address_chars t"
    by (simp add: address_chars_def)
  then show "\<exists>l d t. s = l @ ''@'' @ d @ ''.'' @ t \<and> address_chars l \<and> address_chars d \<and> address_chars t"
    by blast
next
  assume "\<exists>l d t. s = l @ ''@'' @ d @ ''.'' @ t \<and> address_chars l \<and> address_chars d \<and> address_chars t"
  then obtain l d t where s: "s = l @ ''@'' @ d @ ''.'' @ t"
    and c: "address_chars l" "address_chars d" "address_chars t"
    by blast
  have plusI: "\<And>ps a b. address_chars a \<Longrightarrow> matches_whole ps b \<Longrightarrow>
      matches_whole (Plus NotSpaceAt # ps) (a @ b)"
  proof -
    fix ps a b
    assume "address_chars a" "matches_whole ps b"
    then have "a @ b = a @ b \<and> a \<noteq> [] \<and> (\<forall>c \<in> set a. in_class NotSpaceAt c) \<and> matches_whole ps b"
      by (simp add: address_chars_def)
    then show "matches_whole (Plus NotSpaceAt # ps) (a @ b)"
      unfolding matches_plus [of NotSpaceAt ps "a @ b"] by blast
  qed
  have "matches_whole [] []" by simp
  from plusI [OF c(3) this] have m3: "matches_whole [Plus NotSpaceAt] t"
    by simp
  then have m2: "matches_whole [Once (Exactly CHR ''.''), Plus NotSpaceAt] (''.'' @ t)"
    by simp
  from plusI [OF c(2) m2]
  have "matches_whole [Once (Exactly CHR ''@''), Plus NotSpaceAt, Once (Exactly CHR ''.''), Plus NotSpaceAt]
          (''@'' @ d @ ''.'' @ t)"
    by simp
  from plusI [OF c(1) this] show "matches_whole emailRegex s"
    by (simp add: emailRegex_def s)
qed

lemma isValidEmail_shape:
  "isValidEmail (Some e) \<longleftrightarrow>
     e \<noteq> [] \<and> (\<exists>l d t. trim e = l @ ''@'' @ d @ ''.'' @ t
                 \<and> address_chars l \<and> address_chars d \<and> address_chars t)"
  by (simp add: isValidEmail_def emailRegex_shape)

section \<open>Row numbers and the email column\<close>

lemma digits_value_snoc:
  "digits_value (z @ [c]) = 10 * digits_value z + ((of_char c :: nat) - 48)"
  by (simp add: digits_value_def)

lemma digits_value_show_nat: "digits_value (show_nat n) = n"
proof (induction n rule: show_nat.induct)
  case (1 n)
  show ?case
  proof (cases "n < 10")
    case True
    then show ?thesis
      by (subst show_nat.simps) (simp add: digits_value_def)
  next
    case False
    have "n mod 10 < 10" by simp
    then have "(of_char (char_of (48 + n mod 10)) :: nat) = 48 + n mod 10"
      by (simp add: of_char_of)
    with False "1.IH" show ?thesis
      by (subst show_nat.simps) (simp add: digits_value_snoc)
  qed
qed









lemma row_errors_invalid:
  "\<not> row_valid ctx i \<Longrightarrow> row_errors env ctx i = [invalid_line i (cell ctx i)]"
  by (simp add: row_errors_def row_body_invalid initial_state_def)

section \<open>Logging, sends and early returns\<close>


















lemma step_setup_throws:
  "createTransport env a = Inl e \<Longrightarrow> step_setup env req fbt a atts rs col = Inl (server_error e)"
  by (simp add: step_setup_def)



lemma attempt_one_send: "length (filter is_send (attempt_events env ctx i)) \<le> 1"
  by (simp add: attempt_events_def try_send_def catch_send_def log_outcome_def initial_state_def
        Let_def split: sum.splits option.splits)

lemma step_template_not_404:
  "step_template env req f fbt a \<noteq> Inl (Response 404 (Error ''Email account not found'' None))"
  by (auto simp: step_template_def step_file_def step_setup_def server_error_def bad_request_def
           split: sum.splits option.splits)





lemma send_handler_errors_field:
  assumes "fst (send_handler env req) = Response code (Batch s f t errs)"
  shows "errs = None \<longleftrightarrow> f = 0"
proof -
  from assms obtain ctx where ctx: "pre_loop env req = Inr ctx"
    and f: "f = failedCount (row_loop env ctx 0 initial_state)"
    and e: "errs = (if length (errors (row_loop env ctx 0 initial_state)) > 0
             then Some (errors (row_loop env ctx 0 initial_state)) else None)"
    using send_handler_batch by blast
  have "length (errors (row_loop env ctx 0 initial_state))
          = failedCount (row_loop env ctx 0 initial_state)"
    by (rule row_loop_errors_length) (simp add: initial_state_def)
  with f e show ?thesis by auto
qed

section \<open>The claims\<close>

text \<open>
  C1. Every batch result the handler returns has \<open>success + failed = total\<close>, where
  \<open>total\<close> is the number of rows that parsing the uploaded file produced; and one
  iteration of the loop adds one to exactly one of the two counters.
\<close>

theorem batch_counts_add_up:
  assumes "fst (send_handler env req) = Response code (Batch s f t errs)"
  shows "s + f = t
    \<and> (\<exists>up rows. req_file req = Some up \<and> parseFile env up = Inr rows \<and> t = length rows)
    \<and> ((successCount (row_body env c i st) = successCount st + 1
          \<and> failedCount (row_body env c i st) = failedCount st)
        \<or> (successCount (row_body env c i st) = successCount st
          \<and> failedCount (row_body env c i st) = failedCount st + 1))"
proof -
  from assms obtain ctx where ctx: "pre_loop env req = Inr ctx"
    and s: "s = successCount (row_loop env ctx 0 initial_state)"
    and f: "f = failedCount (row_loop env ctx 0 initial_state)"
    and t: "t = length (recipients ctx)"
    using send_handler_batch by blast
  have "s + f = t"
    using row_loop_counts [of 0 ctx env initial_state]
    by (simp add: s f t initial_state_def)
  moreover have "\<exists>up rows. req_file req = Some up \<and> parseFile env up = Inr rows \<and> t = length rows"
    using pre_loop_Inr [OF ctx] t by blast
  moreover have "(successCount (row_body env c i st) = successCount st + 1
          \<and> failedCount (row_body env c i st) = failedCount st)
        \<or> (successCount (row_body env c i st) = successCount st
          \<and> failedCount (row_body env c i st) = failedCount st + 1)"
    using row_body_counts [of env c i st] by blast
  ultimately show ?thesis by blast
qed

theorem batch_counts_add_up_witness:
  "fst (send_handler (sample_env three_rows []) sample_request)
     = Response 200 (Batch 2 1 3 (Some [invalid_line 1 (Some ''bad'')]))
   \<and> (2::nat) + 1 = 3"
proof -
  have h: "fst (send_handler (sample_env three_rows []) sample_request)
     = Response 200 (Batch 2 1 3 (Some [invalid_line 1 (Some ''bad'')]))"
    by code_simp
  from batch_counts_add_up [OF h] h show ?thesis by simp
qed

text \<open>
  C2, as the code has it. For names without a character of pattern syntax and values in
  which no dollar sign starts a replacement pattern, substitution takes the names in key
  order and, for each, replaces every literal occurrence of \<open>{Name}\<close> in the text produced
  so far by the value as it stands (the comparison is by characters, so case matters): the
  text up to the first occurrence is kept, the occurrence gives way to the value, and the
  same is done to the text behind it; without an occurrence the text is kept. A template
  in which no placeholder of the mapping occurs is returned unchanged; with the empty
  mapping \<open>Hi {Unknown}\<close> stays as it is.
\<close>

theorem substitution_in_key_order:
  assumes "\<forall>kv \<in> set vars. plain_key (fst kv) \<and> no_dollar_pattern (snd kv)"
  shows "replaceTemplateVariables rx template vars =
           Inr (if template = [] then []
                else foldl (\<lambda>acc kv. replace_literal (fst kv) (snd kv) acc) template vars)
    \<and> (plain_key k \<longrightarrow> \<not> sublist (braces k) p \<longrightarrow>
          replace_literal k v (p @ braces k @ q) = p @ v @ replace_literal k v q)
    \<and> (\<not> sublist (braces k) s \<longrightarrow> replace_literal k v s = s)
    \<and> ((\<forall>kv \<in> set vars. \<not> sublist (braces (fst kv)) template) \<longrightarrow>
          replaceTemplateVariables rx template vars = Inr template)
    \<and> replaceTemplateVariables rx ''Hi {Unknown}'' [] = Inr ''Hi {Unknown}''
    \<and> (CHR ''$'' \<notin> set w \<longrightarrow> no_dollar_pattern w)"
proof -
  have "plain_key k \<Longrightarrow> CHR ''{'' \<notin> set k"
    by (auto simp: plain_key_def syntax_char_def)
  then have "plain_key k \<longrightarrow> \<not> sublist (braces k) p \<longrightarrow>
          replace_literal k v (p @ braces k @ q) = p @ v @ replace_literal k v q"
    using replace_literal_first by blast
  moreover have "\<not> sublist (braces k) s \<longrightarrow> replace_literal k v s = s"
    using replace_literal_absent by blast
  moreover have "replaceTemplateVariables rx template vars =
           Inr (if template = [] then []
                else foldl (\<lambda>acc kv. replace_literal (fst kv) (snd kv) acc) template vars)"
    using assms by (simp add: replaceTemplateVariables_def replace_keys_plain)
  moreover have "(\<forall>kv \<in> set vars. \<not> sublist (braces (fst kv)) template) \<longrightarrow>
          replaceTemplateVariables rx template vars = Inr template"
    using assms
    by (auto simp: replaceTemplateVariables_def replace_keys_plain foldl_replace_literal_absent)
  moreover have "replaceTemplateVariables rx ''Hi {Unknown}'' [] = Inr ''Hi {Unknown}''"
    by (simp add: replaceTemplateVariables_def)
  moreover have "CHR ''$'' \<notin> set w \<longrightarrow> no_dollar_pattern w"
    using dollar_free_no_pattern by blast
  ultimately show ?thesis by blast
qed

theorem substitution_in_key_order_witness:
  "plain_key ''Name'' \<and> no_dollar_pattern ''Alice''
   \<and> plain_key ''Fee'' \<and> no_dollar_pattern ''$100''
   \<and> replaceTemplateVariables no_engine ''Hi {Name}, {name} {Unknown}: {Fee}''
        [(''Name'', ''Alice''), (''Fee'', ''$100'')]
       = Inr ''Hi Alice, {name} {Unknown}: $100''"
proof -
  have h: "\<forall>kv \<in> set [(''Name'', ''Alice''), (''Fee'', ''$100'')].
             plain_key (fst kv) \<and> no_dollar_pattern (snd kv)"
    by (simp add: plain_key_def syntax_char_def)
  have "replaceTemplateVariables no_engine ''Hi {Name}, {name} {Unknown}: {Fee}''
        [(''Name'', ''Alice''), (''Fee'', ''$100'')]
       = Inr ''Hi Alice, {name} {Unknown}: $100''"
    using substitution_in_key_order
            [OF h, where rx = no_engine and template = "''Hi {Name}, {name} {Unknown}: {Fee}''",
             THEN conjunct1]
    by (simp add: braces_def)
  with h show ?thesis by simp
qed

text \<open>
  C2 as stated fails: the claim makes the result a function of the template and the
  mapping, with every \<open>{Name}\<close> of the template replaced by the value of \<open>Name\<close>. The same
  mapping, taken in its two key orders, gives two results for the template \<open>Dear {Name}\<close>;
  in the order Name, City the value \<open>{City}\<close> put for \<open>{Name}\<close> is replaced in its turn.
\<close>

theorem substitution_order_counterexample:
  "replaceTemplateVariables no_engine ''Dear {Name}'' [(''Name'', ''{City}''), (''City'', ''Paris'')]
     = Inr ''Dear Paris''
   \<and> replaceTemplateVariables no_engine ''Dear {Name}'' [(''City'', ''Paris''), (''Name'', ''{City}'')]
     = Inr ''Dear {City}''
   \<and> map_of [(''Name'', ''{City}''), (''City'', ''Paris'')]
     = map_of [(''City'', ''Paris''), (''Name'', ''{City}'')]
   \<and> substitute_once [(''Name'', ''{City}''), (''City'', ''Paris'')] ''Dear {Name}'' = ''Dear {City}''"
  apply (intro conjI)
     apply code_simp
    apply code_simp
   apply (rule ext, simp)
  apply code_simp
  done

text \<open>
  C7 fails on the code: the column name is pasted into the pattern unescaped, so the
  name \<open>Yes|No|Maybe\<close> gives the pattern \<open>\{Yes|No|Maybe\}\<close>, whose middle alternative
  matches the word \<open>No\<close>. The text has no brace at all and yet is changed. (For names
  without pattern syntax the claim holds: \<open>plain_keys_leave_braceless_text\<close>.)
\<close>

theorem unescaped_key_rewrites_plain_text:
  "CHR ''{'' \<notin> set ''No worries'' \<and> CHR ''}'' \<notin> set ''No worries''
   \<and> replaceTemplateVariables rx ''No worries'' [(''Yes|No|Maybe'', ''x'')] = Inr ''x worries''"
  by (simp add: replaceTemplateVariables_def regexp_replace_def placeholder_def syntax_char_def)

text \<open>
  C9. Substitution handles one variable at a time, in key order, each on the result of
  the ones before: appending a variable to the mapping applies its replacement to the
  result for the mapping without it. With \<open>A\<close> mapped to \<open>{B}\<close> and \<open>B\<close>, iterated later,
  mapped to \<open>x\<close>, the template \<open>{A}\<close> becomes \<open>x\<close>, whereas a single simultaneous
  replacement of the placeholders of the template gives \<open>{B}\<close>.
\<close>

theorem substitution_is_sequential:
  "replaceTemplateVariables rx text (vars @ [(k, v)]) =
     (if text = [] then Inr []
      else case replaceTemplateVariables rx text vars of
             Inl e \<Rightarrow> Inl e
           | Inr r \<Rightarrow> regexp_replace rx (placeholder k) v r)
   \<and> replaceTemplateVariables rx ''{A}'' [(''A'', ''{B}''), (''B'', ''x'')] = Inr ''x''
   \<and> substitute_once [(''A'', ''{B}''), (''B'', ''x'')] ''{A}'' = ''{B}''"
  by (simp add: replaceTemplateVariables_def replace_keys_snoc regexp_replace_def
        placeholder_def syntax_char_def braces_def)



text \<open>
  C5. A row whose cell in the email column is empty, absent or rejected by
  \<open>isValidEmail\<close> adds one to \<open>failedCount\<close> and one error line, made of the row number
  \<open>i + 2\<close> in decimal and the cell, and changes nothing else: no event is recorded for the
  row, so \<open>sendMail\<close> is not called for it. The line is in the list the response carries.
  A cell passes \<open>isValidEmail\<close> exactly when it is not empty and, trimmed, reads
  \<open>local@domain.rest\<close> with the three parts not empty and free of white space and \<open>@\<close>.
\<close>

theorem invalid_row_fails_without_send:
  assumes "pre_loop env req = Inr ctx" and "i < length (recipients ctx)"
    and "falsy (cell ctx i) \<or> \<not> isValidEmail (cell ctx i)"
  shows "row_body env ctx i st =
           st\<lparr>failedCount := failedCount st + 1,
              errors := errors st @
                [''Row '' @ show_nat (i + 2) @ '': Invalid or missing email address ''
                   @ [CHR 0x22] @ show_cell (cell ctx i) @ [CHR 0x22]]\<rparr>
    \<and> (''Row '' @ show_nat (i + 2) @ '': Invalid or missing email address ''
          @ [CHR 0x22] @ show_cell (cell ctx i) @ [CHR 0x22])
        \<in> set (reported_errors (fst (send_handler env req)))
    \<and> digits_value (show_nat (i + 2)) = i + 2
    \<and> snd (send_handler env req)
        = concat (map (row_events env ctx) [0..<length (recipients ctx)])
    \<and> row_events env ctx i = []
    \<and> (isValidEmail (Some e) \<longleftrightarrow>
         e \<noteq> [] \<and> (\<exists>l d t. trim e = l @ ''@'' @ d @ ''.'' @ t
                     \<and> address_chars l \<and> address_chars d \<and> address_chars t))"
proof -
  from assms(3) have inv: "\<not> row_valid ctx i"
    by (simp add: row_valid_def)
  have "invalid_line i (cell ctx i) \<in> set (row_errors env ctx i)"
    by (simp add: row_errors_invalid [OF inv])
  with assms(2) have "invalid_line i (cell ctx i) \<in> set (reported_errors (fst (send_handler env req)))"
    by (auto simp: send_handler_errors [OF assms(1)])
  then show ?thesis
    using row_body_invalid [OF inv, of env st] send_handler_trace [OF assms(1)] inv
      isValidEmail_shape [of e]
    by (simp add: invalid_line_def digits_value_show_nat row_events_def)
qed

theorem invalid_row_fails_without_send_witness:
  "\<not> isl (pre_loop (sample_env three_rows []) sample_request)
   \<and> \<not> isValidEmail (Some ''bad'')
   \<and> (''Row 3: Invalid or missing email address '' @ [CHR 0x22] @ ''bad'' @ [CHR 0x22])
       \<in> set (reported_errors (fst (send_handler (sample_env three_rows []) sample_request)))"
proof -
  have r: "\<not> isl (pre_loop (sample_env three_rows []) sample_request)"
    by code_simp
  then obtain ctx where ctx: "pre_loop (sample_env three_rows []) sample_request = Inr ctx"
    by (cases "pre_loop (sample_env three_rows []) sample_request") auto
  from pre_loop_Inr [OF ctx] have rows: "recipients ctx = three_rows"
    by (auto simp: parseFile_def sample_env_def Let_def split: if_splits)
  from pre_loop_Inr [OF ctx] rows have col: "emailColumn ctx = ''Email''"
    by (auto simp: three_rows_def findEmailColumn_def is_email_key_def toLowerCase_def
          lower_char_def trim_def is_space_def split: if_splits)
  have c: "cell ctx 1 = Some ''bad''"
    by (simp add: cell_def rows col three_rows_def)
  have v: "\<not> isValidEmail (Some ''bad'')"
    by code_simp
  have n: "show_nat (1 + 2) = ''3''"
    by code_simp
  have i: "1 < length (recipients ctx)"
    by (simp add: rows three_rows_def)
  have h: "falsy (cell ctx 1) \<or> \<not> isValidEmail (cell ctx 1)"
    using c v by simp
  have "(''Row 3: Invalid or missing email address '' @ [CHR 0x22] @ ''bad'' @ [CHR 0x22])
       \<in> set (reported_errors (fst (send_handler (sample_env three_rows []) sample_request)))"
    using invalid_row_fails_without_send [OF ctx i h, THEN conjunct2, THEN conjunct1]
    unfolding c n show_cell_def by simp
  with r v show ?thesis by simp
qed


text \<open>
  C3, as the code has it. The response of the server carries every error line, one for
  each failed row, in row order (and no list at all when no row failed); the cap is
  applied by the results panel of the form,
  which shows a list of up to 50 lines in full and, of a longer one, the first 50 lines
  followed by one line \<open>...and N more errors\<close> with \<open>N\<close> the number of lines left out.
\<close>

theorem errors_reported_in_full_capped_on_display:
  "(fst (send_handler env req) = Response code (Batch s f t errs) \<longrightarrow>
      length (reported_errors (fst (send_handler env req))) = f \<and> (errs = None \<longleftrightarrow> f = 0))
   \<and> (pre_loop env req = Inr ctx \<longrightarrow>
      reported_errors (fst (send_handler env req))
        = concat (map (row_errors env ctx) [0..<length (recipients ctx)]))
   \<and> (length es \<le> 50 \<longrightarrow> render_errors (Some es) = es)
   \<and> (50 < length es \<longrightarrow>
      render_errors (Some es)
        = take 50 es @ [''...and '' @ show_nat (length es - 50) @ '' more errors''])"
  using send_handler_errors_length send_handler_errors_field send_handler_errors
    render_errors_short render_errors_long
  by blast

theorem errors_reported_in_full_capped_on_display_witness:
  "fst (send_handler (sample_env three_rows []) sample_request)
     = Response 200 (Batch 2 1 3 (Some [invalid_line 1 (Some ''bad'')]))
   \<and> length (reported_errors (fst (send_handler (sample_env three_rows []) sample_request))) = 1
   \<and> 50 < length (replicate 52 ''Row'')
   \<and> render_errors (Some (replicate 52 ''Row'')) = replicate 50 ''Row'' @ [''...and 2 more errors'']"
proof -
  have h: "fst (send_handler (sample_env three_rows []) sample_request)
     = Response 200 (Batch 2 1 3 (Some [invalid_line 1 (Some ''bad'')]))"
    by code_simp
  have l: "50 < length (replicate 52 ''Row'')"
    by simp
  have n: "show_nat 2 = ''2''"
    by code_simp
  from errors_reported_in_full_capped_on_display
         [where env = "sample_env three_rows []" and req = sample_request and code = 200
            and s = 2 and f = 1 and t = 3 and errs = "Some [invalid_line 1 (Some ''bad'')]"
            and es = "replicate 52 ''Row''"]
    h l n
  show ?thesis by simp
qed

text \<open>
  C3 as stated fails: for a file of 52 rows with malformed addresses the list in the
  response has 52 entries, the last of them the line of the last row and not a summary.
\<close>

theorem uncapped_error_list_counterexample:
  "length (reported_errors (fst (send_handler (sample_env (bad_rows 52) []) sample_request))) = 52
   \<and> last (reported_errors (fst (send_handler (sample_env (bad_rows 52) []) sample_request)))
       = invalid_line 51 (Some ''bad'')"
  by code_simp




text \<open>
  C8, as the code has it. The run is the rows' events in row order: a row that passed
  validation contributes the events of its attempt (at most one send, no delay) followed
  by one delay of 100 ms unless it is the last row of the file; a row rejected by
  validation contributes nothing.
\<close>

theorem delay_after_each_validated_row_but_the_last:
  assumes "pre_loop env req = Inr ctx"
  shows "snd (send_handler env req)
           = concat (map (\<lambda>i. if row_valid ctx i
                               then attempt_events env ctx i @
                                      (if i < length (recipients ctx) - 1 then [Delay 100] else [])
                               else [])
                      [0..<length (recipients ctx)])
    \<and> (e \<in> set (attempt_events env ctx i) \<longrightarrow> \<not> is_delay e)
    \<and> length (filter is_send (attempt_events env ctx i)) \<le> 1"
proof -
  have "row_events env ctx = (\<lambda>i. if row_valid ctx i
                               then attempt_events env ctx i @
                                      (if i < length (recipients ctx) - 1 then [Delay 100] else [])
                               else [])"
    by (rule ext) (simp add: row_events_def)
  with send_handler_trace [OF assms] attempt_no_delay [of e env ctx i]
    attempt_one_send [of env ctx i]
  show ?thesis by auto
qed

theorem delay_after_each_validated_row_but_the_last_witness:
  "\<not> isl (pre_loop (sample_env three_rows []) sample_request)
   \<and> map is_delay (pacing (snd (send_handler (sample_env three_rows []) sample_request)))
       = [False, True, False]"
proof -
  have r: "\<not> isl (pre_loop (sample_env three_rows []) sample_request)"
    by code_simp
  then obtain ctx where ctx: "pre_loop (sample_env three_rows []) sample_request = Inr ctx"
    by (cases "pre_loop (sample_env three_rows []) sample_request") auto
  have "map is_delay (pacing (snd (send_handler (sample_env three_rows []) sample_request)))
       = [False, True, False]"
    by code_simp
  with delay_after_each_validated_row_but_the_last [OF ctx] r
  show ?thesis by simp
qed

text \<open>
  C8 as stated fails: when the last row of the file is rejected by validation, the delay
  behind the row before it comes after the last send of the run.
\<close>

theorem delay_after_last_send_counterexample:
  "map is_delay (pacing (snd (send_handler (sample_env two_rows []) sample_request)))
     = [False, True]
   \<and> map is_send (pacing (snd (send_handler (sample_env two_rows []) sample_request)))
     = [True, False]
   \<and> \<not> delays_between_sends (snd (send_handler (sample_env two_rows []) sample_request))"
  by code_simp

text \<open>
  C10. When the lookup with the identifier as sent finds nothing and \<open>parseInt\<close> reads a
  number from it, the account is the result of a second lookup with that number; so
  \<open>12abc\<close> resolves the account stored under 12. Without a number there is no second
  lookup. The account step answers 404 exactly when no lookup it made found an account.
\<close>

theorem account_lookup_retries_with_integer_prefix:
  "(findAccount env (PStr ident) = Inr None \<longrightarrow> parseInt ident = Some n \<longrightarrow>
      resolve_account env ident = findAccount env (PNum n))
   \<and> (findAccount env (PStr ident) = Inr None \<longrightarrow> parseInt ident = None \<longrightarrow>
      resolve_account env ident = Inr None)
   \<and> (findAccount env (PStr ident) = Inr (Some a) \<longrightarrow> resolve_account env ident = Inr (Some a))
   \<and> parseInt ''12abc'' = Some 12
   \<and> resolve_account (sample_env three_rows []) ''12abc'' = Inr (Some sample_account)
   \<and> (step_account env req f fbt = Inl (Response 404 (Error ''Email account not found'' None))
        \<longleftrightarrow> findAccount env (PStr (or_empty (emailAccountId req))) = Inr None
            \<and> (case parseInt (or_empty (emailAccountId req)) of
                 None \<Rightarrow> True
               | Some k \<Rightarrow> findAccount env (PNum k) = Inr None))"
proof (intro conjI impI)
  show "parseInt ''12abc'' = Some 12"
    by code_simp
  show "resolve_account (sample_env three_rows []) ''12abc'' = Inr (Some sample_account)"
    by code_simp
  show "step_account env req f fbt = Inl (Response 404 (Error ''Email account not found'' None))
        \<longleftrightarrow> findAccount env (PStr (or_empty (emailAccountId req))) = Inr None
            \<and> (case parseInt (or_empty (emailAccountId req)) of
                 None \<Rightarrow> True
               | Some k \<Rightarrow> findAccount env (PNum k) = Inr None)"
    using step_template_not_404 [of env req f fbt]
    by (auto simp: step_account_def resolve_account_def server_error_def bad_request_def
             split: sum.splits option.splits)
qed (simp_all add: resolve_account_def)

theorem account_lookup_retries_with_integer_prefix_witness:
  "findAccount (sample_env three_rows []) (PStr ''12abc'') = Inr None
   \<and> parseInt ''12abc'' = Some 12
   \<and> resolve_account (sample_env three_rows []) ''12abc'' = Inr (Some sample_account)
   \<and> acc_id sample_account = 12"
proof -
  have a: "findAccount (sample_env three_rows []) (PStr ''12abc'') = Inr None"
    by (simp add: sample_env_def)
  have b: "parseInt ''12abc'' = Some 12"
    by code_simp
  have c: "findAccount (sample_env three_rows []) (PNum 12) = Inr (Some sample_account)"
    by (simp add: sample_env_def)
  from account_lookup_retries_with_integer_prefix [THEN conjunct1, THEN mp, OF a, THEN mp, OF b] c
  have "resolve_account (sample_env three_rows []) ''12abc'' = Inr (Some sample_account)"
    by simp
  with a b show ?thesis by (simp add: sample_account_def)
qed


end
